theory Spec2Isabelle
  imports Complex_Main
begin

section \<open>Interview slot booking: data model\<close>

text \<open>
  The repository is an Express/Mongoose service. Its controllers act on three
  collections: users, slots and bookings. A collection is modelled as the list of its
  documents in insertion order, a handler as a function from the request's data and the
  database to the response and the database it leaves behind. A transaction that is
  aborted leaves the database it started from. The handlers that write are modelled
  (createBooking, cancelBooking, createSlot, updateSlot, deleteSlot, with checkOverlap
  and the middleware); the ones that only read (listSlots, getSlotById, listMyBookings)
  change nothing and are left out, as are the timestamps and bookedAt.

  An ObjectId is an opaque key, here a natural number. A raw identifier of a request
  (a route parameter, a body field, the x-user-id header) is either the text of an
  ObjectId or malformed: \<open>mongoose.Types.ObjectId.isValid\<close> is true of the first
  and false of the second, and a query that is given the second throws a CastError.
  Instants (JavaScript Date values) are integers.
\<close>

type_synonym oid = nat

datatype raw_id = WellFormed oid | Malformed

datatype role = ADMIN | CANDIDATE

datatype status = BOOKED | CANCELLED

text \<open>
  models/User.js: the schema declares name, email and role; Mongoose adds \<open>_id\<close>.
  There is no other field.
\<close>

record user =
  u_id :: oid
  name :: string
  email :: string
  role :: role

text \<open>
  models/Slot.js. capacity is declared \<open>{ type: Number, required: true, min: 1 }\<close>:
  a JSON number, which the schema never asks to be whole, so it is a rational here.
  bookedCount starts at 0 and only ever changes by 1, an integer.
\<close>

record slot =
  s_id :: oid
  startTime :: int
  endTime :: int
  capacity :: rat
  bookedCount :: int
  createdBy :: oid
  tags :: "string list"

text \<open>models/Booking.js, with its unique index on (slotId, candidateId).\<close>

record booking =
  b_id :: oid
  slotId :: oid
  candidateId :: oid
  status :: status

record db =
  users :: "user list"
  slots :: "slot list"
  bookings :: "booking list"

text \<open>
  The responses of the handlers, named as the specification names them:
  Created is 201, Ok is 200, InvalidIdentifier 400 (Invalid ID format),
  DuplicateBooking 409 (Duplicate booking detected), SlotFull 409 (Slot capacity
  exceeded), NotFound 404, Forbidden 403, AlreadyCancelled 400 (This booking is already
  cancelled), InvalidInterval 400, InvalidCapacity 400, IntervalConflict 409,
  CapacityConflict 409, HasActiveBookings 409, Unauthenticated 401 and Internal 500
  (what every catch block answers).
\<close>

datatype outcome =
  Created | Ok | InvalidIdentifier | DuplicateBooking | SlotFull | NotFound | Forbidden
  | AlreadyCancelled | InvalidInterval | InvalidCapacity | IntervalConflict
  | CapacityConflict | HasActiveBookings | Unauthenticated | Internal

fun http_status :: "outcome \<Rightarrow> nat" where
  "http_status Created = 201"
| "http_status Ok = 200"
| "http_status InvalidIdentifier = 400"
| "http_status DuplicateBooking = 409"
| "http_status SlotFull = 409"
| "http_status NotFound = 404"
| "http_status Forbidden = 403"
| "http_status AlreadyCancelled = 400"
| "http_status InvalidInterval = 400"
| "http_status InvalidCapacity = 400"
| "http_status IntervalConflict = 409"
| "http_status CapacityConflict = 409"
| "http_status HasActiveBookings = 409"
| "http_status Unauthenticated = 401"
| "http_status Internal = 500"

section \<open>The store\<close>

text \<open>
  \<open>Model.findOne(q)\<close> is \<^const>\<open>find\<close> on the collection.
  \<open>updateOne\<close> changes the first document that matches and no other, which is what
  \<open>findOneAndUpdate\<close>, \<open>findByIdAndUpdate\<close> and \<open>doc.save()\<close> of a loaded
  document do; \<open>deleteOne\<close> removes it.
\<close>

fun updateOne :: "('a \<Rightarrow> bool) \<Rightarrow> ('a \<Rightarrow> 'a) \<Rightarrow> 'a list \<Rightarrow> 'a list" where
  "updateOne P f [] = []"
| "updateOne P f (x # xs) = (if P x then f x # xs else x # updateOne P f xs)"

fun deleteOne :: "('a \<Rightarrow> bool) \<Rightarrow> 'a list \<Rightarrow> 'a list" where
  "deleteOne P [] = []"
| "deleteOne P (x # xs) = (if P x then xs else x # deleteOne P xs)"

definition findOneAndUpdate ::
  "('a \<Rightarrow> bool) \<Rightarrow> ('a \<Rightarrow> 'a) \<Rightarrow> 'a list \<Rightarrow> 'a option \<times> 'a list" where
  "findOneAndUpdate P f xs = (map_option f (find P xs), updateOne P f xs)"

definition findSlotById :: "oid \<Rightarrow> slot list \<Rightarrow> slot option" where
  "findSlotById i ss = find (\<lambda>s. s_id s = i) ss"

definition findBookingById :: "oid \<Rightarrow> booking list \<Rightarrow> booking option" where
  "findBookingById i bs = find (\<lambda>b. b_id b = i) bs"

definition findUserById :: "oid \<Rightarrow> user list \<Rightarrow> user option" where
  "findUserById i us = find (\<lambda>u. u_id u = i) us"

text \<open>
  Inserting a booking: MongoDB refuses, with error code 11000, a document whose
  \<open>_id\<close> is taken or whose (slotId, candidateId) pair is (the schema's unique index).
\<close>

definition insertBooking :: "booking \<Rightarrow> booking list \<Rightarrow> booking list option" where
  "insertBooking b bs =
     (if list_ex (\<lambda>x. b_id x = b_id b) bs
         \<or> list_ex (\<lambda>x. slotId x = slotId b \<and> candidateId x = candidateId b) bs
      then None else Some (bs @ [b]))"

text \<open>
  Saving a slot runs the schema's validation first: the pre-validate hook throws when
  \<open>startTime >= endTime\<close>, and capacity has \<open>min: 1\<close>.
\<close>

definition validSlot :: "slot \<Rightarrow> bool" where
  "validSlot s = (startTime s < endTime s \<and> 1 \<le> capacity s)"

definition insertSlot :: "slot \<Rightarrow> slot list \<Rightarrow> slot list option" where
  "insertSlot s ss =
     (if \<not> validSlot s \<or> list_ex (\<lambda>x. s_id x = s_id s) ss then None else Some (ss @ [s]))"

section \<open>middleware/auth.js\<close>

definition authenticate :: "raw_id option \<Rightarrow> db \<Rightarrow> outcome + user" where
  "authenticate header d =
     (case header of
        None \<Rightarrow> Inl Unauthenticated
      | Some Malformed \<Rightarrow> Inl Unauthenticated
      | Some (WellFormed uid) \<Rightarrow>
          (case findUserById uid (users d) of
             None \<Rightarrow> Inl Unauthenticated
           | Some u \<Rightarrow> Inr u))"

definition authorize :: "role \<Rightarrow> user \<Rightarrow> outcome + user" where
  "authorize requiredRole u = (if role u \<noteq> requiredRole then Inl Forbidden else Inr u)"

text \<open>
  \<open>req.user.userId\<close>, as listMyBookings and cancelBooking read it. req.user is the
  User document that authenticate attached; the schema has no userId, so the read
  gives \<open>undefined\<close>, for every user.
\<close>

definition userId :: "user \<Rightarrow> oid option" where
  "userId u = None"

section \<open>controllers/bookingController.js\<close>

text \<open>
  createBooking. \<open>newId\<close> is the ObjectId the driver generates for the new Booking
  document. The steps are the source's: the format check, the fast-fail duplicate check,
  the conditional increment, the follow-up existence check when it matched nothing, the
  insert, whose duplicate-key error the catch block answers with 409.
\<close>

definition hasRoom :: "oid \<Rightarrow> slot \<Rightarrow> bool" where
  "hasRoom i s = (s_id s = i \<and> of_int (bookedCount s) < capacity s)"

definition incBooked :: "slot \<Rightarrow> slot" where
  "incBooked s = s\<lparr>bookedCount := bookedCount s + 1\<rparr>"

definition decBooked :: "slot \<Rightarrow> slot" where
  "decBooked s = s\<lparr>bookedCount := bookedCount s - 1\<rparr>"

definition alreadyBooked :: "oid \<Rightarrow> oid \<Rightarrow> booking list \<Rightarrow> bool" where
  "alreadyBooked sid cid bs =
     (case find (\<lambda>b. slotId b = sid \<and> candidateId b = cid) bs of
        None \<Rightarrow> False
      | Some existingBooking \<Rightarrow> status existingBooking = BOOKED)"

definition createBooking :: "user \<Rightarrow> raw_id \<Rightarrow> oid \<Rightarrow> db \<Rightarrow> outcome \<times> db" where
  "createBooking reqUser reqSlotId newId d =
     (case reqSlotId of
        Malformed \<Rightarrow> (InvalidIdentifier, d)
      | WellFormed sid \<Rightarrow>
          if alreadyBooked sid (u_id reqUser) (bookings d) then (DuplicateBooking, d)
          else
            (case findOneAndUpdate (hasRoom sid) incBooked (slots d) of
               (None, _) \<Rightarrow>
                 if findSlotById sid (slots d) \<noteq> None then (SlotFull, d) else (NotFound, d)
             | (Some updatedSlot, slots') \<Rightarrow>
                 (case insertBooking
                         \<lparr>b_id = newId, slotId = sid, candidateId = u_id reqUser,
                          status = BOOKED\<rparr> (bookings d) of
                    None \<Rightarrow> (DuplicateBooking, d)
                  | Some bookings' \<Rightarrow> (Created, d\<lparr>slots := slots', bookings := bookings'\<rparr>))))"

text \<open>
  cancelBooking. The body of the handler, with the value it compares the owner against
  as a parameter (\<open>None\<close> is JavaScript's \<open>undefined\<close>): it answers 403 when
  \<open>booking.candidateId.toString() !== userId\<close>. The handler binds that value to
  \<open>req.user.userId\<close>.
\<close>

definition cancelled :: "booking \<Rightarrow> booking" where
  "cancelled b = b\<lparr>status := CANCELLED\<rparr>"

definition cancelBookingAs :: "oid option \<Rightarrow> raw_id \<Rightarrow> db \<Rightarrow> outcome \<times> db" where
  "cancelBookingAs uid reqId d =
     (case reqId of
        Malformed \<Rightarrow> (InvalidIdentifier, d)
      | WellFormed bid \<Rightarrow>
          (case findBookingById bid (bookings d) of
             None \<Rightarrow> (NotFound, d)
           | Some bkg \<Rightarrow>
               if Some (candidateId bkg) \<noteq> uid then (Forbidden, d)
               else if status bkg = CANCELLED then (AlreadyCancelled, d)
               else
                 (Ok, d\<lparr>bookings := updateOne (\<lambda>b. b_id b = bid) cancelled (bookings d),
                        slots := updateOne (\<lambda>s. s_id s = slotId bkg) decBooked (slots d)\<rparr>)))"

definition cancelBooking :: "user \<Rightarrow> raw_id \<Rightarrow> db \<Rightarrow> outcome \<times> db" where
  "cancelBooking reqUser reqId d = cancelBookingAs (userId reqUser) reqId d"

text \<open>routes/bookingRoutes.js: authenticate, authorize("CANDIDATE"), the handler.\<close>

definition postBookings :: "raw_id option \<Rightarrow> raw_id \<Rightarrow> oid \<Rightarrow> db \<Rightarrow> outcome \<times> db" where
  "postBookings header reqSlotId newId d =
     (case authenticate header d of
        Inl e \<Rightarrow> (e, d)
      | Inr u \<Rightarrow>
          (case authorize CANDIDATE u of
             Inl e \<Rightarrow> (e, d)
           | Inr u' \<Rightarrow> createBooking u' reqSlotId newId d))"

definition postBookingsCancel :: "raw_id option \<Rightarrow> raw_id \<Rightarrow> db \<Rightarrow> outcome \<times> db" where
  "postBookingsCancel header reqId d =
     (case authenticate header d of
        Inl e \<Rightarrow> (e, d)
      | Inr u \<Rightarrow>
          (case authorize CANDIDATE u of
             Inl e \<Rightarrow> (e, d)
           | Inr u' \<Rightarrow> cancelBooking u' reqId d))"

section \<open>controllers/slotController.js\<close>

text \<open>
  checkOverlap: the query, clause by clause, and \<open>!!existing\<close>. The optional
  \<open>excludeSlotId\<close> adds \<open>_id: { $ne: excludeSlotId }\<close>.
\<close>

definition overlapQuery :: "oid \<Rightarrow> int \<Rightarrow> int \<Rightarrow> oid option \<Rightarrow> slot \<Rightarrow> bool" where
  "overlapQuery adminId startT endT excludeSlotId s =
     (createdBy s = adminId
      \<and> ((startTime s < endT \<and> startT \<le> startTime s)
         \<or> (startT < endTime s \<and> endTime s \<le> endT)
         \<or> (startTime s \<le> startT \<and> endT \<le> endTime s))
      \<and> (case excludeSlotId of None \<Rightarrow> True | Some x \<Rightarrow> s_id s \<noteq> x))"

definition checkOverlap :: "oid \<Rightarrow> int \<Rightarrow> int \<Rightarrow> oid option \<Rightarrow> slot list \<Rightarrow> bool" where
  "checkOverlap adminId startT endT excludeSlotId ss =
     (find (overlapQuery adminId startT endT excludeSlotId) ss \<noteq> None)"

text \<open>
  createSlot. The request's instants are taken as parsed; \<open>newId\<close> is the ObjectId
  of the new document. The constructor is not given bookedCount, so the schema's default
  0 is stored.
\<close>

definition createSlot ::
  "user \<Rightarrow> int \<Rightarrow> int \<Rightarrow> rat \<Rightarrow> string list \<Rightarrow> oid \<Rightarrow> db \<Rightarrow> outcome \<times> db" where
  "createSlot reqUser start end' cap tgs newId d =
     (if end' \<le> start then (InvalidInterval, d)
      else if cap < 1 then (InvalidCapacity, d)
      else if checkOverlap (u_id reqUser) start end' None (slots d) then (IntervalConflict, d)
      else
        (case insertSlot
                \<lparr>s_id = newId, startTime = start, endTime = end', capacity = cap,
                 bookedCount = 0, createdBy = u_id reqUser, tags = tgs\<rparr> (slots d) of
           None \<Rightarrow> (Internal, d)
         | Some slots' \<Rightarrow> (Created, d\<lparr>slots := slots'\<rparr>)))"

text \<open>
  updateSlot. A field the body leaves out is \<open>None\<close>. The three parts of the handler
  follow one another: the interval, the capacity, the tags; then \<open>slot.save()\<close>, whose
  validation error the catch block answers with 500. A malformed id makes
  \<open>Slot.findById\<close> throw, which the catch block answers too.
\<close>

definition updateTimes ::
  "oid \<Rightarrow> oid \<Rightarrow> int option \<Rightarrow> int option \<Rightarrow> slot list \<Rightarrow> slot \<Rightarrow> outcome + slot" where
  "updateTimes adminId sid newS newE ss s =
     (if newS \<noteq> None \<or> newE \<noteq> None then
        (let newStart = (case newS of Some t \<Rightarrow> t | None \<Rightarrow> startTime s);
             newEnd = (case newE of Some t \<Rightarrow> t | None \<Rightarrow> endTime s)
         in if newEnd \<le> newStart then Inl InvalidInterval
            else if checkOverlap adminId newStart newEnd (Some sid) ss then Inl IntervalConflict
            else Inr (s\<lparr>startTime := newStart, endTime := newEnd\<rparr>))
      else Inr s)"

definition updateCapacity :: "rat option \<Rightarrow> slot \<Rightarrow> outcome + slot" where
  "updateCapacity newCap s =
     (case newCap of
        None \<Rightarrow> Inr s
      | Some c \<Rightarrow>
          if c < of_int (bookedCount s) then Inl CapacityConflict
          else Inr (s\<lparr>capacity := c\<rparr>))"

definition updateTags :: "string list option \<Rightarrow> slot \<Rightarrow> slot" where
  "updateTags newTags s = (case newTags of None \<Rightarrow> s | Some t \<Rightarrow> s\<lparr>tags := t\<rparr>)"

definition updateSlot ::
  "user \<Rightarrow> raw_id \<Rightarrow> int option \<Rightarrow> int option \<Rightarrow> rat option \<Rightarrow> string list option \<Rightarrow> db
     \<Rightarrow> outcome \<times> db" where
  "updateSlot reqUser reqId newS newE newCap newTags d =
     (case reqId of
        Malformed \<Rightarrow> (Internal, d)
      | WellFormed sid \<Rightarrow>
          (case findSlotById sid (slots d) of
             None \<Rightarrow> (NotFound, d)
           | Some s \<Rightarrow>
               if createdBy s \<noteq> u_id reqUser then (Forbidden, d)
               else
                 (case updateTimes (u_id reqUser) sid newS newE (slots d) s of
                    Inl e \<Rightarrow> (e, d)
                  | Inr s1 \<Rightarrow>
                      (case updateCapacity newCap s1 of
                         Inl e \<Rightarrow> (e, d)
                       | Inr s2 \<Rightarrow>
                           (let s3 = updateTags newTags s2
                            in if validSlot s3
                               then (Ok, d\<lparr>slots :=
                                             updateOne (\<lambda>x. s_id x = sid) (\<lambda>_. s3) (slots d)\<rparr>)
                               else (Internal, d))))))"

definition deleteSlot :: "user \<Rightarrow> raw_id \<Rightarrow> db \<Rightarrow> outcome \<times> db" where
  "deleteSlot reqUser reqId d =
     (case reqId of
        Malformed \<Rightarrow> (Internal, d)
      | WellFormed sid \<Rightarrow>
          (case findSlotById sid (slots d) of
             None \<Rightarrow> (NotFound, d)
           | Some s \<Rightarrow>
               if createdBy s \<noteq> u_id reqUser then (Forbidden, d)
               else if 0 < bookedCount s then (HasActiveBookings, d)
               else (Ok, d\<lparr>slots := deleteOne (\<lambda>x. s_id x = sid) (slots d)\<rparr>)))"

section \<open>Sequences of requests\<close>

text \<open>
  The requests that change the store, each with the authenticated user the middleware
  attached and the ObjectId generated for a document it inserts, and the database a
  sequence of them leaves behind.
\<close>

datatype request =
  CreateSlot user int int rat "string list" oid
  | UpdateSlot user raw_id "int option" "int option" "rat option" "string list option"
  | DeleteSlot user raw_id
  | Book user raw_id oid
  | Cancel user raw_id

fun handle :: "request \<Rightarrow> db \<Rightarrow> outcome \<times> db" where
  "handle (CreateSlot u start end' cap tgs newId) d = createSlot u start end' cap tgs newId d"
| "handle (UpdateSlot u rid newS newE newCap newTags) d = updateSlot u rid newS newE newCap newTags d"
| "handle (DeleteSlot u rid) d = deleteSlot u rid d"
| "handle (Book u rid newId) d = createBooking u rid newId d"
| "handle (Cancel u rid) d = cancelBooking u rid d"

fun run :: "request list \<Rightarrow> db \<Rightarrow> db" where
  "run [] d = d"
| "run (r # rs) d = run rs (snd (handle r d))"

section \<open>Consistency of the store\<close>

text \<open>
  The number of ACTIVE reservations of a slot (status BOOKED in the code), and the
  properties of a database the claims are about: every slot's counter is that number;
  every BOOKED reservation refers to a slot that exists; slot ids are unique (the
  primary key); no two reservations share (slotId, candidateId) (the unique index).
\<close>

definition activeCount :: "oid \<Rightarrow> booking list \<Rightarrow> nat" where
  "activeCount sid bs = length (filter (\<lambda>b. slotId b = sid \<and> status b = BOOKED) bs)"

definition counterInv :: "db \<Rightarrow> bool" where
  "counterInv d =
     (\<forall>s \<in> set (slots d). bookedCount s = int (activeCount (s_id s) (bookings d)))"

definition refInv :: "db \<Rightarrow> bool" where
  "refInv d =
     (\<forall>b \<in> set (bookings d). status b = BOOKED \<longrightarrow> findSlotById (slotId b) (slots d) \<noteq> None)"

definition consistent :: "db \<Rightarrow> bool" where
  "consistent d = (distinct (map s_id (slots d)) \<and> counterInv d \<and> refInv d)"

definition roomInv :: "db \<Rightarrow> bool" where
  "roomInv d = (\<forall>s \<in> set (slots d). of_int (bookedCount s) < capacity s + 1)"

definition uniquePairs :: "db \<Rightarrow> bool" where
  "uniquePairs d = distinct (map (\<lambda>b. (slotId b, candidateId b)) (bookings d))"

section \<open>Example data\<close>

definition admin :: user where
  "admin = \<lparr>u_id = 7, name = ''Ada'', email = ''ada@example.com'', role = ADMIN\<rparr>"

definition alice :: user where
  "alice = \<lparr>u_id = 10, name = ''Alice'', email = ''alice@example.com'', role = CANDIDATE\<rparr>"

definition bob :: user where
  "bob = \<lparr>u_id = 11, name = ''Bob'', email = ''bob@example.com'', role = CANDIDATE\<rparr>"

text \<open>A slot from 10:00 to 11:00 (minutes of the day), owned by the admin.\<close>

definition stored :: slot where
  "stored = \<lparr>s_id = 3, startTime = 600, endTime = 660, capacity = 2, bookedCount = 1,
              createdBy = 7, tags = []\<rparr>"

definition aliceBooking :: booking where
  "aliceBooking = \<lparr>b_id = 100, slotId = 3, candidateId = 10, status = BOOKED\<rparr>"

definition dbA :: db where
  "dbA = \<lparr>users = [admin, alice, bob], slots = [stored], bookings = [aliceBooking]\<rparr>"

text \<open>The same slot after Alice's reservation was cancelled, and a full slot.\<close>

definition dbCancelled :: db where
  "dbCancelled = \<lparr>users = [admin, alice, bob], slots = [stored\<lparr>bookedCount := 0\<rparr>],
                   bookings = [cancelled aliceBooking]\<rparr>"

definition dbFull :: db where
  "dbFull = \<lparr>users = [admin, alice, bob], slots = [stored\<lparr>capacity := 1\<rparr>],
              bookings = [aliceBooking]\<rparr>"

text \<open>A slot of capacity 5 with 3 seats taken, and one with none taken.\<close>

definition dbFive :: db where
  "dbFive = \<lparr>users = [admin, alice, bob],
              slots = [stored\<lparr>capacity := 5, bookedCount := 3\<rparr>],
              bookings = [aliceBooking,
                          \<lparr>b_id = 101, slotId = 3, candidateId = 11, status = BOOKED\<rparr>,
                          \<lparr>b_id = 102, slotId = 3, candidateId = 12, status = BOOKED\<rparr>]\<rparr>"

definition dbIdle :: db where
  "dbIdle = \<lparr>users = [admin, alice, bob], slots = [stored\<lparr>capacity := 5, bookedCount := 0\<rparr>],
              bookings = []\<rparr>"

definition dbEmpty :: db where
  "dbEmpty = \<lparr>users = [admin, alice, bob], slots = [], bookings = []\<rparr>"

section \<open>Facts about the store\<close>


lemma updateOne_no_match: "find P xs = None \<Longrightarrow> updateOne P f xs = xs"
  by (induction xs) (auto split: if_splits)

lemma map_updateOne:
  "(\<And>x. x \<in> set xs \<Longrightarrow> P x \<Longrightarrow> g (f x) = g x) \<Longrightarrow> map g (updateOne P f xs) = map g xs"
  by (induction xs) auto

lemma length_updateOne: "length (updateOne P f xs) = length xs"
  by (induction xs) auto

lemma find_updateOne_same:
  "find P xs = Some x \<Longrightarrow> P (f x) \<Longrightarrow> find P (updateOne P f xs) = Some (f x)"
  by (induction xs) (auto split: if_splits)

lemma find_updateOne_other:
  "(\<And>x. Q (f x) = Q x) \<Longrightarrow> (\<And>x. P x \<Longrightarrow> \<not> Q x) \<Longrightarrow> find Q (updateOne P f xs) = find Q xs"
  by (induction xs) (auto split: if_splits)

lemma updateOne_as_list_update:
  "find P xs = Some x \<Longrightarrow> \<exists>i < length xs. xs ! i = x \<and> (\<forall>j < i. \<not> P (xs ! j)) \<and> updateOne P f xs = xs[i := f x]"
proof (induction xs)
  case Nil
  then show ?case by simp
next
  case (Cons a xs)
  show ?case
  proof (cases "P a")
    case True
    with Cons.prems have "a = x" by simp
    with True show ?thesis by (intro exI [of _ 0]) simp
  next
    case False
    with Cons.prems have "find P xs = Some x" by simp
    from Cons.IH [OF this] obtain i where i: "i < length xs" "xs ! i = x"
      "\<forall>j < i. \<not> P (xs ! j)" "updateOne P f xs = xs[i := f x]" by blast
    have "\<forall>j < Suc i. \<not> P ((a # xs) ! j)"
      using False i(3) by (auto simp: less_Suc_eq_0_disj)
    with i False show ?thesis by (intro exI [of _ "Suc i"]) simp
  qed
qed

lemma set_updateOne_distinct:
  assumes "distinct (map key xs)" and "key (f x) = key x" and "find P xs = Some x"
  shows "set (updateOne P f xs) = insert (f x) {y \<in> set xs. key y \<noteq> key x}"
  using assms(1,3)
proof (induction xs)
  case Nil
  then show ?case by simp
next
  case (Cons a xs)
  show ?case
  proof (cases "P a")
    case True
    with Cons.prems have "a = x" by simp
    with True Cons.prems show ?thesis by (auto simp: image_iff)
  next
    case False
    with Cons.prems have fx: "find P xs = Some x" by simp
    then have "x \<in> set xs" by (auto simp: find_Some_iff)
    with Cons.prems have "key a \<noteq> key x" by (auto simp: image_iff)
    with False Cons.IH fx Cons.prems show ?thesis by auto
  qed
qed

lemma activeCount_append:
  "activeCount sid (bs @ [b]) = activeCount sid bs + (if slotId b = sid \<and> status b = BOOKED then 1 else 0)"
  by (simp add: activeCount_def)

lemma activeCount_cancel:
  "find P bs = Some x \<Longrightarrow> status x = BOOKED \<Longrightarrow>
     activeCount sid (updateOne P cancelled bs) + (if slotId x = sid then 1 else 0) = activeCount sid bs"
  by (induction bs) (auto simp: activeCount_def cancelled_def split: if_splits)

lemma findSlotById_None_iff: "findSlotById i ss = None \<longleftrightarrow> i \<notin> s_id ` set ss"
  by (auto simp: findSlotById_def find_None_iff)

lemma findSlotById_SomeD: "findSlotById i ss = Some s \<Longrightarrow> s \<in> set ss \<and> s_id s = i"
  by (auto simp: findSlotById_def find_Some_iff)

lemma findSlotById_distinct:
  "distinct (map s_id ss) \<Longrightarrow> s \<in> set ss \<Longrightarrow> findSlotById (s_id s) ss = Some s"
  by (induction ss) (auto simp: findSlotById_def image_iff)

lemma find_hasRoom_SomeD:
  "find (hasRoom sid) ss = Some s \<Longrightarrow> s \<in> set ss \<and> s_id s = sid \<and> of_int (bookedCount s) < capacity s"
  by (auto simp: find_Some_iff hasRoom_def)

lemma createBooking_cases:
  obtains (unchanged) "snd (createBooking u rid newId d) = d" "fst (createBooking u rid newId d) \<noteq> Created"
  | (created) sid s where "rid = WellFormed sid" "find (hasRoom sid) (slots d) = Some s"
      "\<not> alreadyBooked sid (u_id u) (bookings d)"
      "insertBooking \<lparr>b_id = newId, slotId = sid, candidateId = u_id u, status = BOOKED\<rparr> (bookings d)
        = Some (bookings d @ [\<lparr>b_id = newId, slotId = sid, candidateId = u_id u, status = BOOKED\<rparr>])"
      "createBooking u rid newId d =
        (Created, d\<lparr>slots := updateOne (hasRoom sid) incBooked (slots d),
                     bookings := bookings d @ [\<lparr>b_id = newId, slotId = sid, candidateId = u_id u, status = BOOKED\<rparr>]\<rparr>)"
proof (cases rid)
  case Malformed
  then show ?thesis by (intro unchanged) (simp_all add: createBooking_def)
next
  case (WellFormed sid)
  let ?new = "\<lparr>b_id = newId, slotId = sid, candidateId = u_id u, status = BOOKED\<rparr>"
  show ?thesis
  proof (cases "alreadyBooked sid (u_id u) (bookings d)")
    case True
    with WellFormed show ?thesis by (intro unchanged) (simp_all add: createBooking_def)
  next
    case nb: False
    show ?thesis
    proof (cases "find (hasRoom sid) (slots d)")
      case None
      with WellFormed nb show ?thesis
        by (intro unchanged) (simp_all add: createBooking_def findOneAndUpdate_def)
    next
      case (Some s)
      show ?thesis
      proof (cases "insertBooking ?new (bookings d)")
        case None
        with WellFormed nb Some show ?thesis
          by (intro unchanged) (simp_all add: createBooking_def findOneAndUpdate_def)
      next
        case (Some bs')
        then have bs': "bs' = bookings d @ [?new]"
          by (simp add: insertBooking_def split: if_splits)
        with WellFormed nb \<open>find (hasRoom sid) (slots d) = Some s\<close> Some show ?thesis
          by (intro created [of sid s]) (simp_all add: createBooking_def findOneAndUpdate_def)
      qed
    qed
  qed
qed

lemma cancelBookingAs_cases:
  obtains (unchanged) "snd (cancelBookingAs uid rid d) = d" "fst (cancelBookingAs uid rid d) \<noteq> Ok"
  | (flipped) bid b where "rid = WellFormed bid" "find (\<lambda>x. b_id x = bid) (bookings d) = Some b"
      "status b = BOOKED" "uid = Some (candidateId b)"
      "cancelBookingAs uid rid d =
        (Ok, d\<lparr>bookings := updateOne (\<lambda>x. b_id x = bid) cancelled (bookings d),
                slots := updateOne (\<lambda>s. s_id s = slotId b) decBooked (slots d)\<rparr>)"
proof (cases rid)
  case Malformed
  then show ?thesis by (intro unchanged) (simp_all add: cancelBookingAs_def)
next
  case (WellFormed bid)
  show ?thesis
  proof (cases "findBookingById bid (bookings d)")
    case None
    with WellFormed show ?thesis by (intro unchanged) (simp_all add: cancelBookingAs_def)
  next
    case (Some b)
    show ?thesis
    proof (cases "Some (candidateId b) \<noteq> uid \<or> status b = CANCELLED")
      case True
      with WellFormed Some show ?thesis
        by (intro unchanged) (auto simp: cancelBookingAs_def)
    next
      case False
      then have "status b = BOOKED" by (cases "status b") auto
      with False WellFormed Some show ?thesis
        by (intro flipped [of bid b]) (auto simp: cancelBookingAs_def findBookingById_def cancelled_def [abs_def])
    qed
  qed
qed

lemma set_updateOne_subset:
  "y \<in> set (updateOne P f xs) \<Longrightarrow> y \<in> set xs \<or> (\<exists>x \<in> set xs. P x \<and> y = f x)"
  by (induction xs) (auto split: if_splits)

lemma slot_ids_updateOne:
  assumes "\<And>x. x \<in> set ss \<Longrightarrow> P x \<Longrightarrow> s_id (f x) = s_id x"
  shows "s_id ` set (updateOne P f ss) = s_id ` set ss"
proof -
  have "map s_id (updateOne P f ss) = map s_id ss"
    using assms by (rule map_updateOne)
  then have "set (map s_id (updateOne P f ss)) = set (map s_id ss)" by simp
  then show ?thesis by simp
qed

lemma s_id_incBooked [simp]: "s_id (incBooked s) = s_id s"
  by (simp add: incBooked_def)

lemma s_id_decBooked [simp]: "s_id (decBooked s) = s_id s"
  by (simp add: decBooked_def)

lemma createBooking_consistent:
  assumes "consistent d"
  shows "consistent (snd (createBooking u rid newId d))"
proof (cases u rid newId d rule: createBooking_cases)
  case unchanged
  with assms show ?thesis by simp
next
  case (created sid s)
  let ?new = "\<lparr>b_id = newId, slotId = sid, candidateId = u_id u, status = BOOKED\<rparr>"
  let ?ss = "updateOne (hasRoom sid) incBooked (slots d)"
  from assms have dist: "distinct (map s_id (slots d))" and cnt: "counterInv d" and ref: "refInv d"
    by (simp_all add: consistent_def)
  from created(2) have s: "s \<in> set (slots d)" "s_id s = sid"
    using find_hasRoom_SomeD by blast+
  have ids: "s_id ` set ?ss = s_id ` set (slots d)"
    by (rule slot_ids_updateOne) simp
  have set_ss: "set ?ss = insert (incBooked s) {y \<in> set (slots d). s_id y \<noteq> s_id s}"
    by (rule set_updateOne_distinct [OF dist _ created(2)]) simp
  have d1: "distinct (map s_id ?ss)"
    using dist by (simp add: map_updateOne)
  have c1: "bookedCount x = int (activeCount (s_id x) (bookings d @ [?new]))" if "x \<in> set ?ss" for x
  proof -
    from that set_ss consider "x = incBooked s" | "x \<in> set (slots d)" "s_id x \<noteq> sid"
      using s(2) by auto
    then show ?thesis
    proof cases
      case 1
      with cnt s show ?thesis
        by (simp add: counterInv_def activeCount_append incBooked_def)
    next
      case 2
      with cnt show ?thesis
        by (simp add: counterInv_def activeCount_append)
    qed
  qed
  have r1: "findSlotById (slotId b) ?ss \<noteq> None" if "b \<in> set (bookings d @ [?new])" "status b = BOOKED" for b
  proof (cases "b = ?new")
    case True
    with s ids show ?thesis by (auto simp: findSlotById_None_iff)
  next
    case False
    with that ref have "findSlotById (slotId b) (slots d) \<noteq> None"
      by (auto simp: refInv_def)
    with ids show ?thesis by (simp add: findSlotById_None_iff)
  qed
  from d1 c1 r1 show ?thesis
    by (simp add: created(5) consistent_def counterInv_def refInv_def)
qed

lemma cancelBookingAs_consistent:
  assumes "consistent d"
  shows "consistent (snd (cancelBookingAs uid rid d))"
proof (cases uid rid d rule: cancelBookingAs_cases)
  case unchanged
  with assms show ?thesis by simp
next
  case (flipped bid b)
  let ?bs = "updateOne (\<lambda>x. b_id x = bid) cancelled (bookings d)"
  let ?ss = "updateOne (\<lambda>s. s_id s = slotId b) decBooked (slots d)"
  from assms have dist: "distinct (map s_id (slots d))" and cnt: "counterInv d" and ref: "refInv d"
    by (simp_all add: consistent_def)
  have ids: "s_id ` set ?ss = s_id ` set (slots d)"
    by (rule slot_ids_updateOne) simp
  have d1: "distinct (map s_id ?ss)"
    using dist by (simp add: map_updateOne)
  have act: "activeCount sid ?bs + (if slotId b = sid then 1 else 0) = activeCount sid (bookings d)" for sid
    by (rule activeCount_cancel [OF flipped(2,3)])
  have c1: "bookedCount x = int (activeCount (s_id x) ?bs)" if "x \<in> set ?ss" for x
  proof (cases "find (\<lambda>s. s_id s = slotId b) (slots d)")
    case None
    then have "?ss = slots d" by (rule updateOne_no_match)
    with that have x: "x \<in> set (slots d)" by simp
    with None have "s_id x \<noteq> slotId b" by (auto simp: find_None_iff)
    with act [of "s_id x"] cnt x show ?thesis by (auto simp: counterInv_def)
  next
    case (Some s0)
    then have s0: "s0 \<in> set (slots d)" "s_id s0 = slotId b"
      by (auto simp: find_Some_iff)
    have "set ?ss = insert (decBooked s0) {y \<in> set (slots d). s_id y \<noteq> s_id s0}"
      by (rule set_updateOne_distinct [OF dist _ Some]) simp
    with that s0 consider "x = decBooked s0" | "x \<in> set (slots d)" "s_id x \<noteq> slotId b"
      by auto
    then show ?thesis
    proof cases
      case 1
      with act [of "slotId b"] cnt s0 show ?thesis
        by (auto simp: counterInv_def decBooked_def)
    next
      case 2
      with act [of "s_id x"] cnt show ?thesis by (auto simp: counterInv_def)
    qed
  qed
  have r1: "findSlotById (slotId y) ?ss \<noteq> None" if "y \<in> set ?bs" "status y = BOOKED" for y
  proof -
    from that(1)
    have "y \<in> set (bookings d) \<or> (\<exists>x \<in> set (bookings d). b_id x = bid \<and> y = cancelled x)"
      by (rule set_updateOne_subset)
    with that(2) have "y \<in> set (bookings d)" by (auto simp: cancelled_def)
    with that(2) ref have "findSlotById (slotId y) (slots d) \<noteq> None" by (auto simp: refInv_def)
    with ids show ?thesis by (simp add: findSlotById_None_iff)
  qed
  from d1 c1 r1 show ?thesis
    by (simp add: flipped(5) consistent_def counterInv_def refInv_def)
qed

section \<open>The overlap check\<close>

text \<open>
  C5. For every owner, every candidate interval with \<open>startT < endT\<close>, every optional
  excluded slot id and every collection in which that owner's slots have
  \<open>startTime < endTime\<close>, checkOverlap answers true exactly when some stored slot of
  that owner, other than the excluded one, has \<open>startTime < endT\<close> and
  \<open>startT < endTime\<close>. Intervals that only touch at a boundary satisfy neither strict
  inequality, so they never count.
\<close>

theorem checkOverlap_iff:
  assumes "startT < endT"
    and "\<forall>s\<in>set ss. createdBy s = adminId \<longrightarrow> startTime s < endTime s"
  shows "checkOverlap adminId startT endT ex ss \<longleftrightarrow>
     (\<exists>s\<in>set ss. createdBy s = adminId \<and> Some (s_id s) \<noteq> ex
        \<and> startTime s < endT \<and> startT < endTime s)"
proof -
  have "overlapQuery adminId startT endT ex s \<longleftrightarrow>
      (createdBy s = adminId \<and> Some (s_id s) \<noteq> ex \<and> startTime s < endT \<and> startT < endTime s)"
    if "s \<in> set ss" for s
  proof (cases "createdBy s = adminId")
    case False
    then show ?thesis by (simp add: overlapQuery_def)
  next
    case True
    with assms(2) that have v: "startTime s < endTime s" by blast
    have e: "(case ex of None \<Rightarrow> True | Some x \<Rightarrow> s_id s \<noteq> x) \<longleftrightarrow> Some (s_id s) \<noteq> ex"
      by (cases ex) auto
    from True v assms(1) show ?thesis
      unfolding overlapQuery_def e by auto
  qed
  then show ?thesis
    unfolding checkOverlap_def find_None_iff by blast
qed

text \<open>
  The stored slot is 10:00 to 11:00. The candidates 10:30 to 10:45, 09:30 to 10:15 and
  09:00 to 12:00 overlap it; 11:00 to 12:00 and 08:00 to 09:00 do not.
\<close>

theorem checkOverlap_iff_witness:
  "checkOverlap 7 630 645 None [stored] \<and> checkOverlap 7 570 615 None [stored]
   \<and> checkOverlap 7 540 720 None [stored] \<and> \<not> checkOverlap 7 660 720 None [stored]
   \<and> \<not> checkOverlap 7 480 540 None [stored]"
  using checkOverlap_iff [of 630 645 "[stored]" 7 None]
    checkOverlap_iff [of 570 615 "[stored]" 7 None]
    checkOverlap_iff [of 540 720 "[stored]" 7 None]
    checkOverlap_iff [of 660 720 "[stored]" 7 None]
    checkOverlap_iff [of 480 540 "[stored]" 7 None]
  by (simp add: stored_def)

section \<open>The counter and the reservations\<close>

text \<open>
  C1. In a consistent database, whatever createBooking and the body of cancelBooking
  return, the database they leave is consistent again: every slot's bookedCount is the
  number of BOOKED reservations that refer to it. A booking that answers Created has
  raised the counter of the one slot by 1 and appended one BOOKED reservation; a
  cancellation that answers Ok has turned one reservation from BOOKED to CANCELLED and
  lowered the counter of its slot by 1; every other answer leaves the database as it
  was. The cancellation is stated for every value the handler may compare the owner
  with.
\<close>

theorem bookedCount_tracks_active_reservations:
  assumes "consistent d"
  shows "consistent (snd (createBooking u rid newId d))
    \<and> consistent (snd (cancelBookingAs uid rid' d))
    \<and> (\<forall>s \<in> set (slots (snd (createBooking u rid newId d))).
          bookedCount s = int (activeCount (s_id s) (bookings (snd (createBooking u rid newId d)))))
    \<and> (\<forall>s \<in> set (slots (snd (cancelBookingAs uid rid' d))).
          bookedCount s = int (activeCount (s_id s) (bookings (snd (cancelBookingAs uid rid' d)))))
    \<and> (case createBooking u rid newId d of
          (r, d') \<Rightarrow>
            if r = Created then
              \<exists>sid s. rid = WellFormed sid \<and> findSlotById sid (slots d) = Some s
                \<and> findSlotById sid (slots d') = Some (s\<lparr>bookedCount := bookedCount s + 1\<rparr>)
                \<and> (\<forall>i. i \<noteq> sid \<longrightarrow> findSlotById i (slots d') = findSlotById i (slots d))
                \<and> bookings d' = bookings d @
                     [\<lparr>b_id = newId, slotId = sid, candidateId = u_id u, status = BOOKED\<rparr>]
            else d' = d)
    \<and> (case cancelBookingAs uid rid' d of
          (r, d') \<Rightarrow>
            if r = Ok then
              \<exists>bid b i s. rid' = WellFormed bid \<and> i < length (bookings d) \<and> bookings d ! i = b
                \<and> b_id b = bid \<and> status b = BOOKED
                \<and> bookings d' = (bookings d)[i := b\<lparr>status := CANCELLED\<rparr>]
                \<and> findSlotById (slotId b) (slots d) = Some s
                \<and> findSlotById (slotId b) (slots d') = Some (s\<lparr>bookedCount := bookedCount s - 1\<rparr>)
                \<and> (\<forall>j. j \<noteq> slotId b \<longrightarrow> findSlotById j (slots d') = findSlotById j (slots d))
            else d' = d)"
proof -
  from assms have dist: "distinct (map s_id (slots d))" and ref: "refInv d"
    by (simp_all add: consistent_def)
  have c1: "consistent (snd (createBooking u rid newId d))"
    using assms by (rule createBooking_consistent)
  have c2: "consistent (snd (cancelBookingAs uid rid' d))"
    using assms by (rule cancelBookingAs_consistent)
  have book: "case createBooking u rid newId d of
          (r, d') \<Rightarrow>
            if r = Created then
              \<exists>sid s. rid = WellFormed sid \<and> findSlotById sid (slots d) = Some s
                \<and> findSlotById sid (slots d') = Some (s\<lparr>bookedCount := bookedCount s + 1\<rparr>)
                \<and> (\<forall>i. i \<noteq> sid \<longrightarrow> findSlotById i (slots d') = findSlotById i (slots d))
                \<and> bookings d' = bookings d @
                     [\<lparr>b_id = newId, slotId = sid, candidateId = u_id u, status = BOOKED\<rparr>]
            else d' = d"
  proof (cases u rid newId d rule: createBooking_cases)
    case unchanged
    then show ?thesis by (cases "createBooking u rid newId d") auto
  next
    case (created sid s)
    let ?ss = "updateOne (hasRoom sid) incBooked (slots d)"
    from created(2) have s: "s \<in> set (slots d)" "s_id s = sid"
      using find_hasRoom_SomeD by blast+
    have f0: "findSlotById sid (slots d) = Some s"
      using findSlotById_distinct [OF dist s(1)] s(2) by simp
    have "set ?ss = insert (incBooked s) {y \<in> set (slots d). s_id y \<noteq> s_id s}"
      by (rule set_updateOne_distinct [OF dist _ created(2)]) simp
    then have "incBooked s \<in> set ?ss" by simp
    moreover have "distinct (map s_id ?ss)"
      using dist by (simp add: map_updateOne)
    ultimately have "findSlotById (s_id (incBooked s)) ?ss = Some (incBooked s)"
      by (rule findSlotById_distinct [rotated])
    then have f1: "findSlotById sid ?ss = Some (s\<lparr>bookedCount := bookedCount s + 1\<rparr>)"
      using s(2) by (simp add: incBooked_def)
    have f2: "findSlotById i ?ss = findSlotById i (slots d)" if "i \<noteq> sid" for i
      unfolding findSlotById_def using that
      by (intro find_updateOne_other) (auto simp: hasRoom_def)
    from f0 f1 f2 created(1) show ?thesis
      unfolding created(5) by simp
  qed
  have cancel: "case cancelBookingAs uid rid' d of
          (r, d') \<Rightarrow>
            if r = Ok then
              \<exists>bid b i s. rid' = WellFormed bid \<and> i < length (bookings d) \<and> bookings d ! i = b
                \<and> b_id b = bid \<and> status b = BOOKED
                \<and> bookings d' = (bookings d)[i := b\<lparr>status := CANCELLED\<rparr>]
                \<and> findSlotById (slotId b) (slots d) = Some s
                \<and> findSlotById (slotId b) (slots d') = Some (s\<lparr>bookedCount := bookedCount s - 1\<rparr>)
                \<and> (\<forall>j. j \<noteq> slotId b \<longrightarrow> findSlotById j (slots d') = findSlotById j (slots d))
            else d' = d"
  proof (cases uid rid' d rule: cancelBookingAs_cases)
    case unchanged
    then show ?thesis by (cases "cancelBookingAs uid rid' d") auto
  next
    case (flipped bid b)
    let ?ss = "updateOne (\<lambda>s. s_id s = slotId b) decBooked (slots d)"
    from updateOne_as_list_update [OF flipped(2), of cancelled]
    obtain i where i: "i < length (bookings d)" "bookings d ! i = b"
      "updateOne (\<lambda>x. b_id x = bid) cancelled (bookings d) = (bookings d)[i := cancelled b]"
      by blast
    from flipped(2) have b: "b \<in> set (bookings d)" "b_id b = bid"
      by (auto simp: find_Some_iff)
    with ref flipped(3) obtain s where s: "findSlotById (slotId b) (slots d) = Some s"
      by (auto simp: refInv_def)
    then have "find (\<lambda>s. s_id s = slotId b) ?ss = Some (decBooked s)"
      unfolding findSlotById_def
      by (rule find_updateOne_same) (use s in \<open>auto dest: findSlotById_SomeD\<close>)
    then have f1: "findSlotById (slotId b) ?ss = Some (s\<lparr>bookedCount := bookedCount s - 1\<rparr>)"
      by (simp add: findSlotById_def decBooked_def)
    have f2: "findSlotById j ?ss = findSlotById j (slots d)" if "j \<noteq> slotId b" for j
      unfolding findSlotById_def using that
      by (intro find_updateOne_other) auto
    from i b flipped(1,3) s f1 f2 show ?thesis
      unfolding flipped(5) by (auto simp: cancelled_def)
  qed
  from c1 c2 book cancel show ?thesis
    by (simp add: consistent_def counterInv_def)
qed

theorem bookedCount_tracks_active_reservations_witness:
  "consistent dbA
   \<and> fst (createBooking bob (WellFormed 3) 101 dbA) = Created
   \<and> counterInv (snd (createBooking bob (WellFormed 3) 101 dbA))
   \<and> map bookedCount (slots (snd (createBooking bob (WellFormed 3) 101 dbA))) = [2]
   \<and> fst (cancelBookingAs (Some 10) (WellFormed 100) dbA) = Ok
   \<and> counterInv (snd (cancelBookingAs (Some 10) (WellFormed 100) dbA))
   \<and> map bookedCount (slots (snd (cancelBookingAs (Some 10) (WellFormed 100) dbA))) = [0]"
proof -
  have c: "consistent dbA"
    by (simp add: consistent_def counterInv_def refInv_def dbA_def stored_def aliceBooking_def
        activeCount_def findSlotById_def)
  have b: "createBooking bob (WellFormed 3) 101 dbA =
      (Created, dbA\<lparr>slots := [stored\<lparr>bookedCount := 2\<rparr>],
         bookings := [aliceBooking, \<lparr>b_id = 101, slotId = 3, candidateId = 11, status = BOOKED\<rparr>]\<rparr>)"
    by (simp add: createBooking_def alreadyBooked_def findOneAndUpdate_def hasRoom_def
        incBooked_def insertBooking_def dbA_def stored_def aliceBooking_def bob_def)
  have k: "cancelBookingAs (Some 10) (WellFormed 100) dbA =
      (Ok, dbA\<lparr>bookings := [cancelled aliceBooking], slots := [stored\<lparr>bookedCount := 0\<rparr>]\<rparr>)"
    by (simp add: cancelBookingAs_def findBookingById_def decBooked_def dbA_def stored_def
        aliceBooking_def cancelled_def)
  from bookedCount_tracks_active_reservations [OF c, of bob "WellFormed 3" 101 "Some 10" "WellFormed 100"]
  have "consistent (snd (createBooking bob (WellFormed 3) 101 dbA))"
    and "consistent (snd (cancelBookingAs (Some 10) (WellFormed 100) dbA))"
    by simp_all
  then have "counterInv (snd (createBooking bob (WellFormed 3) 101 dbA))"
    and "counterInv (snd (cancelBookingAs (Some 10) (WellFormed 100) dbA))"
    by (simp_all add: consistent_def)
  with c show ?thesis
    by (simp add: b k)
qed

section \<open>Booking the same slot twice\<close>

lemma filter_key_distinct:
  "distinct (map key xs) \<Longrightarrow> x \<in> set xs \<Longrightarrow> filter (\<lambda>y. key y = key x) xs = [x]"
proof (induction xs)
  case Nil
  then show ?case by simp
next
  case (Cons a xs)
  show ?case
  proof (cases "a = x")
    case True
    with Cons.prems(1) have "\<forall>y \<in> set xs. key y \<noteq> key x" by (auto simp: image_iff)
    then have "filter (\<lambda>y. key y = key x) xs = []" by (simp add: filter_empty_conv)
    with True show ?thesis by simp
  next
    case False
    with Cons.prems have "x \<in> set xs" "key a \<noteq> key x" by (auto simp: image_iff)
    with Cons.IH Cons.prems(1) show ?thesis by simp
  qed
qed

lemma find_pair_unique:
  assumes "uniquePairs d" and "b \<in> set (bookings d)"
  shows "find (\<lambda>x. slotId x = slotId b \<and> candidateId x = candidateId b) (bookings d) = Some b"
proof -
  let ?P = "\<lambda>x. slotId x = slotId b \<and> candidateId x = candidateId b"
  from assms(2) have "find ?P (bookings d) \<noteq> None"
    by (auto simp: find_None_iff)
  then obtain b' where b': "find ?P (bookings d) = Some b'" by blast
  then have "b' \<in> set (bookings d)" "?P b'"
    by (auto simp: find_Some_iff)
  moreover from assms(1) have "inj_on (\<lambda>x. (slotId x, candidateId x)) (set (bookings d))"
    by (simp add: uniquePairs_def distinct_map)
  ultimately have "b' = b"
    using assms(2) by (auto dest: inj_onD)
  with b' show ?thesis by simp
qed

text \<open>
  C7. Under the unique index on (slotId, candidateId): when the actor holds a BOOKED
  reservation on the slot, createBooking for that actor and slot answers
  DuplicateBooking and returns the database it was given, so neither a counter nor the
  reservations change, and the pair still has that one reservation and no second one.
\<close>

theorem duplicate_booking_rejected:
  assumes "uniquePairs d" and "b \<in> set (bookings d)"
    and "slotId b = sid" and "candidateId b = u_id u" and "status b = BOOKED"
  shows "createBooking u (WellFormed sid) newId d = (DuplicateBooking, d)
    \<and> filter (\<lambda>x. slotId x = sid \<and> candidateId x = u_id u)
         (bookings (snd (createBooking u (WellFormed sid) newId d))) = [b]"
proof -
  from find_pair_unique [OF assms(1,2)] assms(3,4)
  have f: "find (\<lambda>x. slotId x = sid \<and> candidateId x = u_id u) (bookings d) = Some b"
    by simp
  with assms(5) have "alreadyBooked sid (u_id u) (bookings d)"
    by (simp add: alreadyBooked_def)
  then have r: "createBooking u (WellFormed sid) newId d = (DuplicateBooking, d)"
    by (simp add: createBooking_def)
  from assms(1) have "distinct (map (\<lambda>x. (slotId x, candidateId x)) (bookings d))"
    by (simp add: uniquePairs_def)
  then have "filter (\<lambda>x. (slotId x, candidateId x) = (slotId b, candidateId b)) (bookings d) = [b]"
    using assms(2) by (rule filter_key_distinct)
  with r assms(3,4) show ?thesis by simp
qed

text \<open>Alice holds a BOOKED reservation on slot 3 and asks for it again.\<close>

theorem duplicate_booking_rejected_witness:
  "uniquePairs dbA \<and> aliceBooking \<in> set (bookings dbA) \<and> status aliceBooking = BOOKED
   \<and> createBooking alice (WellFormed 3) 101 dbA = (DuplicateBooking, dbA)
   \<and> filter (\<lambda>x. slotId x = 3 \<and> candidateId x = u_id alice)
        (bookings (snd (createBooking alice (WellFormed 3) 101 dbA))) = [aliceBooking]"
proof -
  have h: "uniquePairs dbA" "aliceBooking \<in> set (bookings dbA)" "slotId aliceBooking = 3"
    "candidateId aliceBooking = u_id alice" "status aliceBooking = BOOKED"
    by (simp_all add: uniquePairs_def dbA_def aliceBooking_def alice_def)
  note t = duplicate_booking_rejected [OF h, of 101]
  from t [THEN conjunct1] t [THEN conjunct2] h(1,2,5) show ?thesis
    by simp
qed

text \<open>
  C10. Under the unique index: when the actor's reservation on the slot is CANCELLED,
  a new createBooking passes the fast-fail check (which rejects BOOKED only); the
  insert of the new reservation would violate the index; and the handler returns the
  database it was given, the increment rolled back. Its answer is DuplicateBooking
  whenever the slot has a free seat, so that the insert is reached; otherwise the
  conditional increment matched nothing and the answer is SlotFull, or NotFound when the
  slot is gone. Rebooking after a cancellation is rejected in every case.
\<close>

theorem rebooking_after_cancel_rejected:
  assumes "uniquePairs d" and "b \<in> set (bookings d)"
    and "slotId b = sid" and "candidateId b = u_id u" and "status b = CANCELLED"
  shows "\<not> alreadyBooked sid (u_id u) (bookings d)
    \<and> insertBooking \<lparr>b_id = newId, slotId = sid, candidateId = u_id u, status = BOOKED\<rparr>
         (bookings d) = None
    \<and> snd (createBooking u (WellFormed sid) newId d) = d
    \<and> fst (createBooking u (WellFormed sid) newId d) \<noteq> Created
    \<and> fst (createBooking u (WellFormed sid) newId d) =
        (if (\<exists>s \<in> set (slots d). s_id s = sid \<and> of_int (bookedCount s) < capacity s)
         then DuplicateBooking
         else if (\<exists>s \<in> set (slots d). s_id s = sid) then SlotFull else NotFound)"
proof -
  from find_pair_unique [OF assms(1,2)] assms(3,4)
  have f: "find (\<lambda>x. slotId x = sid \<and> candidateId x = u_id u) (bookings d) = Some b"
    by simp
  with assms(5) have pre: "\<not> alreadyBooked sid (u_id u) (bookings d)"
    by (simp add: alreadyBooked_def)
  from assms(2,3,4)
  have ins: "insertBooking \<lparr>b_id = newId, slotId = sid, candidateId = u_id u, status = BOOKED\<rparr>
      (bookings d) = None"
    by (auto simp: insertBooking_def list_ex_iff)
  have room: "find (hasRoom sid) (slots d) = None \<longleftrightarrow>
      \<not> (\<exists>s \<in> set (slots d). s_id s = sid \<and> of_int (bookedCount s) < capacity s)"
    by (auto simp: find_None_iff hasRoom_def)
  have ex: "findSlotById sid (slots d) = None \<longleftrightarrow> \<not> (\<exists>s \<in> set (slots d). s_id s = sid)"
    by (auto simp: findSlotById_def find_None_iff)
  show ?thesis
  proof (cases "find (hasRoom sid) (slots d)")
    case None
    with pre ins room ex show ?thesis
      by (simp add: createBooking_def findOneAndUpdate_def)
  next
    case (Some s)
    with room have "\<exists>s \<in> set (slots d). s_id s = sid \<and> of_int (bookedCount s) < capacity s"
      by simp
    with pre ins Some show ?thesis
      by (simp add: createBooking_def findOneAndUpdate_def)
  qed
qed

text \<open>Alice's reservation on slot 3 was cancelled; the slot has both seats free.\<close>

theorem rebooking_after_cancel_rejected_witness:
  "uniquePairs dbCancelled \<and> cancelled aliceBooking \<in> set (bookings dbCancelled)
   \<and> status (cancelled aliceBooking) = CANCELLED
   \<and> \<not> alreadyBooked 3 (u_id alice) (bookings dbCancelled)
   \<and> createBooking alice (WellFormed 3) 101 dbCancelled = (DuplicateBooking, dbCancelled)"
proof -
  have h: "uniquePairs dbCancelled" "cancelled aliceBooking \<in> set (bookings dbCancelled)"
    "slotId (cancelled aliceBooking) = 3" "candidateId (cancelled aliceBooking) = u_id alice"
    "status (cancelled aliceBooking) = CANCELLED"
    by (simp_all add: uniquePairs_def dbCancelled_def aliceBooking_def alice_def cancelled_def)
  have s: "\<exists>s \<in> set (slots dbCancelled). s_id s = 3 \<and> of_int (bookedCount s) < capacity s"
    by (simp add: dbCancelled_def stored_def)
  from rebooking_after_cancel_rejected [OF h, of 101] h(1,2,5) s show ?thesis
    by (simp add: prod_eq_iff)
qed

section \<open>The conditional increment\<close>

lemma find_hasRoom_distinct:
  assumes "distinct (map s_id ss)" and "findSlotById sid ss = Some s"
  shows "find (hasRoom sid) ss = (if of_int (bookedCount s) < capacity s then Some s else None)"
proof -
  from assms(2) have s: "s \<in> set ss" "s_id s = sid"
    using findSlotById_SomeD by blast+
  have only: "x = s" if "x \<in> set ss" "s_id x = sid" for x
  proof -
    from assms(1) have "inj_on s_id (set ss)" by (simp add: distinct_map)
    with that s show ?thesis by (auto dest: inj_onD)
  qed
  show ?thesis
  proof (cases "of_int (bookedCount s) < capacity s")
    case True
    then have "find (hasRoom sid) ss \<noteq> None"
      using s by (auto simp: find_None_iff hasRoom_def)
    then obtain x where x: "find (hasRoom sid) ss = Some x" by blast
    then have "x \<in> set ss" "s_id x = sid" using find_hasRoom_SomeD by blast+
    with only have "x = s" by blast
    with x True show ?thesis by simp
  next
    case False
    with only have "find (hasRoom sid) ss = None"
      by (auto simp: find_None_iff hasRoom_def)
    with False show ?thesis by simp
  qed
qed

text \<open>
  C6. For a well-formed slotId and an actor with no BOOKED reservation on that slot
  (slot ids being unique): when no slot has the id, the conditional update matches
  nothing and the answer is NotFound, the database unchanged; when the slot exists with
  \<open>bookedCount < capacity\<close>, the one findOneAndUpdate returns it with bookedCount
  raised by exactly 1, stores it under its id and leaves every other slot alone, and the
  handler commits that together with the inserted reservation (or, when the insert hits
  a duplicate key, answers DuplicateBooking and keeps nothing); when the slot exists and
  is full, the update matches nothing and the answer is SlotFull, the database
  unchanged.
\<close>

theorem conditional_increment_or_rejection:
  assumes "distinct (map s_id (slots d))"
    and "\<forall>b \<in> set (bookings d). slotId b = sid \<and> candidateId b = u_id u \<longrightarrow> status b \<noteq> BOOKED"
  shows "(findSlotById sid (slots d) = None \<longrightarrow>
            fst (findOneAndUpdate (hasRoom sid) incBooked (slots d)) = None
            \<and> createBooking u (WellFormed sid) newId d = (NotFound, d))
    \<and> (\<forall>s. findSlotById sid (slots d) = Some s \<longrightarrow>
          (if of_int (bookedCount s) < capacity s
           then fst (findOneAndUpdate (hasRoom sid) incBooked (slots d))
                  = Some (s\<lparr>bookedCount := bookedCount s + 1\<rparr>)
              \<and> findSlotById sid (snd (findOneAndUpdate (hasRoom sid) incBooked (slots d)))
                  = Some (s\<lparr>bookedCount := bookedCount s + 1\<rparr>)
              \<and> (\<forall>i. i \<noteq> sid \<longrightarrow>
                    findSlotById i (snd (findOneAndUpdate (hasRoom sid) incBooked (slots d)))
                      = findSlotById i (slots d))
              \<and> createBooking u (WellFormed sid) newId d =
                  (case insertBooking
                          \<lparr>b_id = newId, slotId = sid, candidateId = u_id u, status = BOOKED\<rparr>
                          (bookings d) of
                     None \<Rightarrow> (DuplicateBooking, d)
                   | Some bookings' \<Rightarrow>
                       (Created,
                        d\<lparr>slots := snd (findOneAndUpdate (hasRoom sid) incBooked (slots d)),
                          bookings := bookings'\<rparr>))
           else fst (findOneAndUpdate (hasRoom sid) incBooked (slots d)) = None
              \<and> createBooking u (WellFormed sid) newId d = (SlotFull, d)))"
proof -
  have pre: "\<not> alreadyBooked sid (u_id u) (bookings d)"
  proof (cases "find (\<lambda>b. slotId b = sid \<and> candidateId b = u_id u) (bookings d)")
    case None
    then show ?thesis by (simp add: alreadyBooked_def)
  next
    case (Some b)
    then have "b \<in> set (bookings d)" "slotId b = sid \<and> candidateId b = u_id u"
      by (auto simp: find_Some_iff)
    with assms(2) have "status b \<noteq> BOOKED" by blast
    with Some show ?thesis by (simp add: alreadyBooked_def)
  qed
  have missing: "fst (findOneAndUpdate (hasRoom sid) incBooked (slots d)) = None
      \<and> createBooking u (WellFormed sid) newId d = (NotFound, d)"
    if "findSlotById sid (slots d) = None"
  proof -
    from that have "find (hasRoom sid) (slots d) = None"
      by (auto simp: findSlotById_def find_None_iff hasRoom_def)
    with that pre show ?thesis
      by (simp add: createBooking_def findOneAndUpdate_def)
  qed
  have full: "fst (findOneAndUpdate (hasRoom sid) incBooked (slots d)) = None
      \<and> createBooking u (WellFormed sid) newId d = (SlotFull, d)"
    if "findSlotById sid (slots d) = Some s" "\<not> of_int (bookedCount s) < capacity s" for s
  proof -
    from find_hasRoom_distinct [OF assms(1) that(1)] that(2)
    have "find (hasRoom sid) (slots d) = None" by simp
    with that pre show ?thesis
      by (simp add: createBooking_def findOneAndUpdate_def)
  qed
  have room: "fst (findOneAndUpdate (hasRoom sid) incBooked (slots d))
                  = Some (s\<lparr>bookedCount := bookedCount s + 1\<rparr>)
      \<and> findSlotById sid (snd (findOneAndUpdate (hasRoom sid) incBooked (slots d)))
                  = Some (s\<lparr>bookedCount := bookedCount s + 1\<rparr>)
      \<and> (\<forall>i. i \<noteq> sid \<longrightarrow>
                    findSlotById i (snd (findOneAndUpdate (hasRoom sid) incBooked (slots d)))
                      = findSlotById i (slots d))
      \<and> createBooking u (WellFormed sid) newId d =
                  (case insertBooking
                          \<lparr>b_id = newId, slotId = sid, candidateId = u_id u, status = BOOKED\<rparr>
                          (bookings d) of
                     None \<Rightarrow> (DuplicateBooking, d)
                   | Some bookings' \<Rightarrow>
                       (Created,
                        d\<lparr>slots := snd (findOneAndUpdate (hasRoom sid) incBooked (slots d)),
                          bookings := bookings'\<rparr>))"
    if "findSlotById sid (slots d) = Some s" "of_int (bookedCount s) < capacity s" for s
  proof -
    let ?ss = "updateOne (hasRoom sid) incBooked (slots d)"
    from find_hasRoom_distinct [OF assms(1) that(1)] that(2)
    have f: "find (hasRoom sid) (slots d) = Some s" by simp
    from that(1) have s: "s \<in> set (slots d)" "s_id s = sid"
      using findSlotById_SomeD by blast+
    have "set ?ss = insert (incBooked s) {y \<in> set (slots d). s_id y \<noteq> s_id s}"
      by (rule set_updateOne_distinct [OF assms(1) _ f]) simp
    then have "incBooked s \<in> set ?ss" by simp
    moreover have "distinct (map s_id ?ss)"
      using assms(1) by (simp add: map_updateOne)
    ultimately have "findSlotById (s_id (incBooked s)) ?ss = Some (incBooked s)"
      by (rule findSlotById_distinct [rotated])
    then have f1: "findSlotById sid ?ss = Some (s\<lparr>bookedCount := bookedCount s + 1\<rparr>)"
      using s(2) by (simp add: incBooked_def)
    have f2: "findSlotById i ?ss = findSlotById i (slots d)" if "i \<noteq> sid" for i
      unfolding findSlotById_def using that
      by (intro find_updateOne_other) (auto simp: hasRoom_def)
    from f f1 f2 pre show ?thesis
      by (simp add: createBooking_def findOneAndUpdate_def incBooked_def split: option.split)
  qed
  from missing full room show ?thesis by simp
qed

text \<open>
  Bob books slot 3, which has one of two seats taken; the same slot with capacity 1 is
  full; slot 4 does not exist.
\<close>

theorem conditional_increment_or_rejection_witness:
  "createBooking bob (WellFormed 3) 101 dbA =
     (Created, dbA\<lparr>slots := [stored\<lparr>bookedCount := 2\<rparr>],
        bookings := [aliceBooking, \<lparr>b_id = 101, slotId = 3, candidateId = 11, status = BOOKED\<rparr>]\<rparr>)
   \<and> createBooking bob (WellFormed 3) 101 dbFull = (SlotFull, dbFull)
   \<and> createBooking bob (WellFormed 4) 101 dbA = (NotFound, dbA)"
proof -
  have h: "distinct (map s_id (slots dbA))"
    "\<forall>b \<in> set (bookings dbA). slotId b = 3 \<and> candidateId b = u_id bob \<longrightarrow> status b \<noteq> BOOKED"
    "\<forall>b \<in> set (bookings dbA). slotId b = 4 \<and> candidateId b = u_id bob \<longrightarrow> status b \<noteq> BOOKED"
    "distinct (map s_id (slots dbFull))"
    "\<forall>b \<in> set (bookings dbFull). slotId b = 3 \<and> candidateId b = u_id bob \<longrightarrow> status b \<noteq> BOOKED"
    by (simp_all add: dbA_def dbFull_def aliceBooking_def bob_def)
  have f: "findSlotById 3 (slots dbA) = Some stored" "findSlotById 4 (slots dbA) = None"
    "findSlotById 3 (slots dbFull) = Some (stored\<lparr>capacity := 1\<rparr>)"
    by (simp_all add: findSlotById_def dbA_def dbFull_def stored_def)
  have r: "of_int (bookedCount stored) < capacity stored"
    "\<not> of_int (bookedCount (stored\<lparr>capacity := 1\<rparr>)) < capacity (stored\<lparr>capacity := 1\<rparr>)"
    by (simp_all add: stored_def)
  note a = conditional_increment_or_rejection [OF h(1,2), of 101, THEN conjunct2, rule_format, OF f(1)]
  note b = conditional_increment_or_rejection [OF h(4,5), of 101, THEN conjunct2, rule_format, OF f(3)]
  note c = conditional_increment_or_rejection [OF h(1,3), of 101, THEN conjunct1, rule_format, OF f(2)]
  from a r(1) have "createBooking bob (WellFormed 3) 101 dbA =
     (Created, dbA\<lparr>slots := [stored\<lparr>bookedCount := 2\<rparr>],
        bookings := [aliceBooking, \<lparr>b_id = 101, slotId = 3, candidateId = 11, status = BOOKED\<rparr>]\<rparr>)"
    by (simp add: insertBooking_def findOneAndUpdate_def hasRoom_def incBooked_def dbA_def
        stored_def aliceBooking_def bob_def)
  moreover from b r(2) have "createBooking bob (WellFormed 3) 101 dbFull = (SlotFull, dbFull)"
    by simp
  moreover from c have "createBooking bob (WellFormed 4) 101 dbA = (NotFound, dbA)"
    by simp
  ultimately show ?thesis by simp
qed

section \<open>Cancellation and the requester's identity\<close>

text \<open>
  C3. The handler compares the reservation's owner with \<open>req.user.userId\<close>, a
  property no User document has. Alice, authenticated through her x-user-id, owns
  reservation 100, which is BOOKED. Her request to cancel it is answered Forbidden
  (403) and the database is unchanged: the reservation stays BOOKED, the counter stays
  1. With the reservation already CANCELLED her request is answered Forbidden as well,
  not AlreadyCancelled. The body of the handler, given her \<open>_id\<close> instead, answers
  Ok, marks the reservation CANCELLED and lowers the counter from 1 to 0.
\<close>

theorem owner_cancel_is_forbidden:
  "postBookingsCancel (Some (WellFormed 10)) (WellFormed 100) dbA = (Forbidden, dbA)
   \<and> http_status (fst (postBookingsCancel (Some (WellFormed 10)) (WellFormed 100) dbA)) = 403
   \<and> postBookingsCancel (Some (WellFormed 10)) (WellFormed 100) dbCancelled
       = (Forbidden, dbCancelled)
   \<and> authenticate (Some (WellFormed 10)) dbA = Inr alice
   \<and> findBookingById 100 (bookings dbA) = Some aliceBooking
   \<and> candidateId aliceBooking = u_id alice
   \<and> status aliceBooking = BOOKED
   \<and> cancelBookingAs (Some (u_id alice)) (WellFormed 100) dbA =
       (Ok, dbA\<lparr>bookings := [cancelled aliceBooking], slots := [stored\<lparr>bookedCount := 0\<rparr>]\<rparr>)"
  by (simp add: postBookingsCancel_def authenticate_def authorize_def cancelBooking_def
      cancelBookingAs_def userId_def findUserById_def findBookingById_def decBooked_def
      cancelled_def dbA_def dbCancelled_def admin_def alice_def bob_def stored_def
      aliceBooking_def)

text \<open>
  C4. For every requester and every well-formed id of an existing reservation,
  cancelBooking answers Forbidden and returns the database it was given, whoever owns
  the reservation. The answer Forbidden therefore does not tell an owner from a
  stranger.
\<close>

theorem cancel_forbidden_for_every_requester:
  assumes "findBookingById bid (bookings d) = Some b"
  shows "cancelBooking u (WellFormed bid) d = (Forbidden, d)"
  using assms by (simp add: cancelBooking_def cancelBookingAs_def userId_def)

text \<open>Alice asks to cancel the reservation she owns.\<close>

theorem cancel_forbidden_for_every_requester_witness:
  "findBookingById 100 (bookings dbFull) = Some aliceBooking
   \<and> candidateId aliceBooking = u_id alice
   \<and> cancelBooking alice (WellFormed 100) dbFull = (Forbidden, dbFull)"
proof -
  have h: "findBookingById 100 (bookings dbFull) = Some aliceBooking"
    by (simp add: findBookingById_def dbFull_def aliceBooking_def)
  have "candidateId aliceBooking = u_id alice"
    by (simp add: aliceBooking_def alice_def)
  with h cancel_forbidden_for_every_requester [OF h, of alice] show ?thesis
    by simp
qed

section \<open>Changing a slot's capacity\<close>

lemma updateTimes_InrD:
  assumes "updateTimes a sid newS newE ss s = Inr s1" and "startTime s < endTime s"
  shows "startTime s1 < endTime s1 \<and> s_id s1 = s_id s \<and> bookedCount s1 = bookedCount s
    \<and> capacity s1 = capacity s \<and> createdBy s1 = createdBy s"
  using assms by (auto simp: updateTimes_def Let_def split: if_splits)

text \<open>
  C8 as stated fails on two requests by the owner that name a new capacity. On a slot
  with no seat taken,
  capacity 0 is not below bookedCount, yet it is not accepted: the save fails the
  schema's \<open>min: 1\<close> and the answer is Internal. On a slot with 3 seats taken,
  capacity 2 together with a startTime after the slot's endTime is answered
  InvalidInterval, not CapacityConflict: the interval is checked first.
\<close>

theorem updateSlot_capacity_counterexample:
  "findSlotById 3 (slots dbIdle) = Some (stored\<lparr>capacity := 5, bookedCount := 0\<rparr>)
   \<and> createdBy (stored\<lparr>capacity := 5, bookedCount := 0\<rparr>) = u_id admin
   \<and> of_int (bookedCount (stored\<lparr>capacity := 5, bookedCount := 0\<rparr>)) \<le> (0 :: rat)
   \<and> updateSlot admin (WellFormed 3) None None (Some 0) None dbIdle = (Internal, dbIdle)
   \<and> findSlotById 3 (slots dbFive) = Some (stored\<lparr>capacity := 5, bookedCount := 3\<rparr>)
   \<and> (2 :: rat) < of_int (bookedCount (stored\<lparr>capacity := 5, bookedCount := 3\<rparr>))
   \<and> updateSlot admin (WellFormed 3) (Some 700) None (Some 2) None dbFive
       = (InvalidInterval, dbFive)"
  by (simp add: updateSlot_def updateTimes_def updateCapacity_def updateTags_def validSlot_def
      findSlotById_def dbIdle_def dbFive_def stored_def admin_def)

text \<open>
  C8, amended. For an updateSlot by the slot's owner that names a new capacity \<open>c\<close>,
  on a stored slot with \<open>startTime < endTime\<close>, whose interval part (if the request
  has one) passes its own checks: when \<open>c < bookedCount\<close> the answer is
  CapacityConflict and the database is unchanged; when \<open>bookedCount \<le> c\<close> and
  \<open>1 \<le> c\<close> (the schema's \<open>min: 1\<close>) the answer is Ok and the slot is stored
  with capacity \<open>c\<close> and its bookedCount untouched.
\<close>

theorem updateSlot_capacity_guard:
  assumes "findSlotById sid (slots d) = Some s" and "createdBy s = u_id u"
    and "startTime s < endTime s"
    and "updateTimes (u_id u) sid newS newE (slots d) s = Inr s1"
  shows "(c < of_int (bookedCount s) \<longrightarrow>
            updateSlot u (WellFormed sid) newS newE (Some c) newTags d = (CapacityConflict, d))
    \<and> (of_int (bookedCount s) \<le> c \<and> 1 \<le> c \<longrightarrow>
            fst (updateSlot u (WellFormed sid) newS newE (Some c) newTags d) = Ok
            \<and> findSlotById sid (slots (snd (updateSlot u (WellFormed sid) newS newE (Some c) newTags d)))
                = Some (updateTags newTags (s1\<lparr>capacity := c\<rparr>))
            \<and> capacity (updateTags newTags (s1\<lparr>capacity := c\<rparr>)) = c
            \<and> bookedCount (updateTags newTags (s1\<lparr>capacity := c\<rparr>)) = bookedCount s)"
proof -
  note t = updateTimes_InrD [OF assms(4,3)]
  let ?s3 = "updateTags newTags (s1\<lparr>capacity := c\<rparr>)"
  have s3: "s_id ?s3 = s_id s" "capacity ?s3 = c" "bookedCount ?s3 = bookedCount s"
    "startTime ?s3 < endTime ?s3"
    using t by (auto simp: updateTags_def split: option.split)
  from assms(1) have sid: "s_id s = sid" using findSlotById_SomeD by blast
  have low: "updateSlot u (WellFormed sid) newS newE (Some c) newTags d = (CapacityConflict, d)"
    if "c < of_int (bookedCount s)"
    using that assms t by (simp add: updateSlot_def updateCapacity_def)
  have ok: "updateSlot u (WellFormed sid) newS newE (Some c) newTags d =
      (Ok, d\<lparr>slots := updateOne (\<lambda>x. s_id x = sid) (\<lambda>_. ?s3) (slots d)\<rparr>)"
    if "of_int (bookedCount s) \<le> c" "1 \<le> c"
    using that assms t s3 by (simp add: updateSlot_def updateCapacity_def validSlot_def Let_def)
  have "find (\<lambda>x. s_id x = sid) (updateOne (\<lambda>x. s_id x = sid) (\<lambda>_. ?s3) (slots d)) = Some ?s3"
    using assms(1) s3(1) sid unfolding findSlotById_def
    by (intro find_updateOne_same) simp_all
  then have "findSlotById sid (updateOne (\<lambda>x. s_id x = sid) (\<lambda>_. ?s3) (slots d)) = Some ?s3"
    by (simp add: findSlotById_def)
  with low ok s3 show ?thesis by simp
qed

text \<open>A slot with capacity 5 and 3 seats taken rejects capacity 2 and accepts 3.\<close>

theorem updateSlot_capacity_guard_witness:
  "updateSlot admin (WellFormed 3) None None (Some 2) None dbFive = (CapacityConflict, dbFive)
   \<and> updateSlot admin (WellFormed 3) None None (Some 3) None dbFive =
       (Ok, dbFive\<lparr>slots := [stored\<lparr>capacity := 3, bookedCount := 3\<rparr>]\<rparr>)"
proof -
  let ?s = "stored\<lparr>capacity := 5, bookedCount := 3\<rparr>"
  have h: "findSlotById 3 (slots dbFive) = Some ?s" "createdBy ?s = u_id admin"
    "startTime ?s < endTime ?s" "updateTimes (u_id admin) 3 None None (slots dbFive) ?s = Inr ?s"
    by (simp_all add: findSlotById_def dbFive_def stored_def admin_def updateTimes_def)
  note g = updateSlot_capacity_guard [OF h]
  have "(2 :: rat) < of_int (bookedCount ?s)" by (simp add: stored_def)
  with g [of 2 None] have a:
    "updateSlot admin (WellFormed 3) None None (Some 2) None dbFive = (CapacityConflict, dbFive)"
    by blast
  have "of_int (bookedCount ?s) \<le> (3 :: rat) \<and> (1 :: rat) \<le> 3" by (simp add: stored_def)
  with g [of 3 None] have b: "fst (updateSlot admin (WellFormed 3) None None (Some 3) None dbFive) = Ok"
    and c: "findSlotById 3 (slots (snd (updateSlot admin (WellFormed 3) None None (Some 3) None dbFive)))
                = Some (updateTags None (?s\<lparr>capacity := 3\<rparr>))"
    by blast+
  have "snd (updateSlot admin (WellFormed 3) None None (Some 3) None dbFive) =
      dbFive\<lparr>slots := [stored\<lparr>capacity := 3, bookedCount := 3\<rparr>]\<rparr>"
    by (simp add: updateSlot_def updateTimes_def updateCapacity_def updateTags_def validSlot_def
      findSlotById_def dbFive_def stored_def admin_def)
  with a b show ?thesis by (simp add: prod_eq_iff)
qed

section \<open>Reachable stores\<close>

text \<open>
  Every handler keeps the store consistent, keeps the pairs (slotId, candidateId)
  unique, and keeps \<open>bookedCount < capacity + 1\<close>. So these hold after every sequence
  of requests on a store that starts without slots and reservations.
\<close>

lemma activeCount_zero:
  assumes "refInv d" and "findSlotById i (slots d) = None"
  shows "activeCount i (bookings d) = 0"
proof -
  have "\<not> (slotId b = i \<and> status b = BOOKED)" if "b \<in> set (bookings d)" for b
    using assms that by (auto simp: refInv_def)
  then show ?thesis by (simp add: activeCount_def filter_empty_conv)
qed

lemma createSlot_consistent:
  assumes "consistent d"
  shows "consistent (snd (createSlot u start end' cap tgs newId d))"
proof (cases "fst (createSlot u start end' cap tgs newId d) = Created")
  case False
  then have "snd (createSlot u start end' cap tgs newId d) = d"
    by (auto simp: createSlot_def split: if_splits option.splits)
  with assms show ?thesis by simp
next
  case True
  let ?new = "\<lparr>s_id = newId, startTime = start, endTime = end', capacity = cap,
                 bookedCount = 0, createdBy = u_id u, tags = tgs\<rparr>"
  from True have fresh: "\<not> list_ex (\<lambda>x. s_id x = newId) (slots d)"
    and r: "snd (createSlot u start end' cap tgs newId d) = d\<lparr>slots := slots d @ [?new]\<rparr>"
    by (auto simp: createSlot_def insertSlot_def split: if_splits option.splits)
  from assms have dist: "distinct (map s_id (slots d))" and cnt: "counterInv d" and ref: "refInv d"
    by (simp_all add: consistent_def)
  from fresh have none: "findSlotById newId (slots d) = None"
    by (auto simp: findSlotById_def find_None_iff list_ex_iff)
  have d1: "distinct (map s_id (slots d @ [?new]))"
    using dist fresh by (auto simp: list_ex_iff)
  have c1: "counterInv (d\<lparr>slots := slots d @ [?new]\<rparr>)"
    using cnt activeCount_zero [OF ref none] by (auto simp: counterInv_def)
  have r1: "refInv (d\<lparr>slots := slots d @ [?new]\<rparr>)"
    using ref by (auto simp: refInv_def findSlotById_None_iff)
  from d1 c1 r1 show ?thesis by (simp add: r consistent_def)
qed

lemma updateTimes_not_Ok: "updateTimes a sid newS newE ss s \<noteq> Inl Ok"
  by (simp add: updateTimes_def Let_def)

lemma updateCapacity_not_Ok: "updateCapacity newCap s \<noteq> Inl Ok"
  by (simp add: updateCapacity_def split: option.split)

lemma updateSlot_cases:
  obtains (unchanged) "snd (updateSlot u rid newS newE newCap newTags d) = d"
    "fst (updateSlot u rid newS newE newCap newTags d) \<noteq> Ok"
  | (saved) sid s s3 where "rid = WellFormed sid" "findSlotById sid (slots d) = Some s"
      "s_id s3 = s_id s" "bookedCount s3 = bookedCount s" "validSlot s3"
      "of_int (bookedCount s) \<le> capacity s3 \<or> capacity s3 = capacity s"
      "updateSlot u rid newS newE newCap newTags d =
         (Ok, d\<lparr>slots := updateOne (\<lambda>x. s_id x = sid) (\<lambda>_. s3) (slots d)\<rparr>)"
proof (cases rid)
  case Malformed
  then show ?thesis by (intro unchanged) (simp_all add: updateSlot_def)
next
  case (WellFormed sid)
  show ?thesis
  proof (cases "findSlotById sid (slots d)")
    case None
    with WellFormed show ?thesis by (intro unchanged) (simp_all add: updateSlot_def)
  next
    case (Some s)
    show ?thesis
    proof (cases "createdBy s \<noteq> u_id u")
      case True
      with WellFormed Some show ?thesis by (intro unchanged) (simp_all add: updateSlot_def)
    next
      case own: False
      show ?thesis
      proof (cases "updateTimes (u_id u) sid newS newE (slots d) s")
        case (Inl e)
        then have "e \<noteq> Ok" using updateTimes_not_Ok by metis
        with WellFormed Some own Inl show ?thesis
          by (intro unchanged) (simp_all add: updateSlot_def)
      next
        case (Inr s1)
        then have a: "s_id s1 = s_id s" "bookedCount s1 = bookedCount s" "capacity s1 = capacity s"
          by (auto simp: updateTimes_def Let_def split: if_splits)
        show ?thesis
        proof (cases "updateCapacity newCap s1")
          case (Inl e)
          then have "e \<noteq> Ok" using updateCapacity_not_Ok by metis
          with WellFormed Some own \<open>updateTimes (u_id u) sid newS newE (slots d) s = Inr s1\<close> Inl
          show ?thesis
            by (intro unchanged) (simp_all add: updateSlot_def)
        next
          case s2: (Inr s2)
          then have b: "s_id s2 = s_id s1" "bookedCount s2 = bookedCount s1"
            "of_int (bookedCount s1) \<le> capacity s2 \<or> capacity s2 = capacity s1"
            by (auto simp: updateCapacity_def split: option.splits if_splits)
          have c: "s_id (updateTags newTags s2) = s_id s2"
            "bookedCount (updateTags newTags s2) = bookedCount s2"
            "capacity (updateTags newTags s2) = capacity s2"
            by (auto simp: updateTags_def split: option.splits)
          show ?thesis
          proof (cases "validSlot (updateTags newTags s2)")
            case False
            with WellFormed Some own Inr s2 show ?thesis
              by (intro unchanged) (simp_all add: updateSlot_def)
          next
            case True
            with WellFormed Some own Inr s2 have
              "updateSlot u rid newS newE newCap newTags d =
                (Ok, d\<lparr>slots := updateOne (\<lambda>x. s_id x = sid) (\<lambda>_. updateTags newTags s2) (slots d)\<rparr>)"
              by (simp add: updateSlot_def)
            moreover have "s_id (updateTags newTags s2) = s_id s"
              "bookedCount (updateTags newTags s2) = bookedCount s"
              "of_int (bookedCount s) \<le> capacity (updateTags newTags s2)
                \<or> capacity (updateTags newTags s2) = capacity s"
              using a b c by auto
            ultimately show ?thesis
              using WellFormed Some True by (intro saved [of sid s "updateTags newTags s2"])
          qed
        qed
      qed
    qed
  qed
qed

lemma updateSlot_consistent:
  assumes "consistent d"
  shows "consistent (snd (updateSlot u rid newS newE newCap newTags d))"
proof (cases u rid newS newE newCap newTags d rule: updateSlot_cases)
  case unchanged
  with assms show ?thesis by simp
next
  case (saved sid s s3)
  let ?ss = "updateOne (\<lambda>x. s_id x = sid) (\<lambda>_. s3) (slots d)"
  from assms have dist: "distinct (map s_id (slots d))" and cnt: "counterInv d" and ref: "refInv d"
    by (simp_all add: consistent_def)
  from saved(2) have s: "s \<in> set (slots d)" "s_id s = sid"
    using findSlotById_SomeD by blast+
  from saved(2) have f: "find (\<lambda>x. s_id x = sid) (slots d) = Some s"
    by (simp add: findSlotById_def)
  have m: "map s_id ?ss = map s_id (slots d)"
    by (rule map_updateOne) (use saved(3) s in simp)
  then have "set (map s_id ?ss) = set (map s_id (slots d))" by simp
  then have ids: "s_id ` set ?ss = s_id ` set (slots d)" by simp
  have set_ss: "set ?ss = insert s3 {y \<in> set (slots d). s_id y \<noteq> s_id s}"
    by (rule set_updateOne_distinct [OF dist saved(3) f])
  have d1: "distinct (map s_id ?ss)" using dist m by simp
  have c1: "counterInv (d\<lparr>slots := ?ss\<rparr>)"
    using cnt set_ss s saved(3,4) by (auto simp: counterInv_def)
  have r1: "refInv (d\<lparr>slots := ?ss\<rparr>)"
    using ref ids by (auto simp: refInv_def findSlotById_None_iff)
  from d1 c1 r1 show ?thesis by (simp add: saved(7) consistent_def)
qed

lemma set_deleteOne_distinct:
  "distinct (map key xs) \<Longrightarrow> find P xs = Some x \<Longrightarrow>
     set (deleteOne P xs) = {y \<in> set xs. key y \<noteq> key x}"
proof (induction xs)
  case Nil
  then show ?case by simp
next
  case (Cons a xs)
  show ?case
  proof (cases "P a")
    case True
    with Cons.prems show ?thesis by (auto simp: image_iff)
  next
    case False
    with Cons.prems have fx: "find P xs = Some x" by simp
    then have "x \<in> set xs" by (auto simp: find_Some_iff)
    with Cons.prems have "key a \<noteq> key x" by (auto simp: image_iff)
    with False Cons.IH fx Cons.prems show ?thesis by auto
  qed
qed

lemma set_deleteOne_subset: "set (deleteOne P xs) \<subseteq> set xs"
  by (induction xs) auto

lemma distinct_deleteOne: "distinct (map key xs) \<Longrightarrow> distinct (map key (deleteOne P xs))"
proof (induction xs)
  case Nil
  then show ?case by simp
next
  case (Cons a xs)
  then show ?case using set_deleteOne_subset [of P xs] by (auto simp: image_iff)
qed

lemma deleteSlot_consistent:
  assumes "consistent d"
  shows "consistent (snd (deleteSlot u rid d))"
proof (cases "fst (deleteSlot u rid d) = Ok")
  case False
  then have "snd (deleteSlot u rid d) = d"
    by (auto simp: deleteSlot_def split: raw_id.splits option.splits if_splits)
  with assms show ?thesis by simp
next
  case True
  then obtain sid s where s: "findSlotById sid (slots d) = Some s" and z: "\<not> 0 < bookedCount s"
    and r: "snd (deleteSlot u rid d) = d\<lparr>slots := deleteOne (\<lambda>x. s_id x = sid) (slots d)\<rparr>"
    by (auto simp: deleteSlot_def split: raw_id.splits option.splits if_splits)
  let ?ss = "deleteOne (\<lambda>x. s_id x = sid) (slots d)"
  from assms have dist: "distinct (map s_id (slots d))" and cnt: "counterInv d" and ref: "refInv d"
    by (simp_all add: consistent_def)
  from s have s': "s \<in> set (slots d)" "s_id s = sid"
    using findSlotById_SomeD by blast+
  from s have f: "find (\<lambda>x. s_id x = sid) (slots d) = Some s"
    by (simp add: findSlotById_def)
  have set_ss: "set ?ss = {y \<in> set (slots d). s_id y \<noteq> sid}"
    using set_deleteOne_distinct [OF dist f] s'(2) by simp
  from cnt s' z have zero: "activeCount sid (bookings d) = 0"
    by (auto simp: counterInv_def)
  have d1: "distinct (map s_id ?ss)" using dist by (rule distinct_deleteOne)
  have c1: "counterInv (d\<lparr>slots := ?ss\<rparr>)"
    using cnt set_ss by (auto simp: counterInv_def)
  have r1: "findSlotById (slotId b) ?ss \<noteq> None" if "b \<in> set (bookings d)" "status b = BOOKED" for b
  proof -
    from zero that have "slotId b \<noteq> sid"
      by (auto simp: activeCount_def filter_empty_conv)
    moreover from ref that have "slotId b \<in> s_id ` set (slots d)"
      by (auto simp: refInv_def findSlotById_None_iff)
    ultimately show ?thesis using set_ss by (auto simp: findSlotById_None_iff)
  qed
  from d1 c1 r1 show ?thesis by (simp add: r consistent_def refInv_def)
qed

lemma handle_consistent: "consistent d \<Longrightarrow> consistent (snd (handle r d))"
  by (cases r)
    (simp_all add: createSlot_consistent updateSlot_consistent deleteSlot_consistent
      createBooking_consistent cancelBooking_def cancelBookingAs_consistent)

lemma run_consistent: "consistent d \<Longrightarrow> consistent (run rs d)"
  by (induction rs arbitrary: d) (simp_all add: handle_consistent)

lemma handle_roomInv:
  assumes "roomInv d"
  shows "roomInv (snd (handle r d))"
proof (cases r)
  case (CreateSlot u start end' cap tgs newId)
  have "roomInv (snd (createSlot u start end' cap tgs newId d))"
    using assms
    by (auto simp: createSlot_def insertSlot_def validSlot_def roomInv_def
        split: if_splits option.splits)
  with CreateSlot show ?thesis by simp
next
  case (UpdateSlot u rid newS newE newCap newTags)
  have "roomInv (snd (updateSlot u rid newS newE newCap newTags d))"
  proof (cases u rid newS newE newCap newTags d rule: updateSlot_cases)
    case unchanged
    with assms show ?thesis by simp
  next
    case (saved sid s s3)
    from saved(2) have "s \<in> set (slots d)" using findSlotById_SomeD by blast
    with assms have "of_int (bookedCount s) < capacity s + 1" by (simp add: roomInv_def)
    with saved(4,6) have "of_int (bookedCount s3) < capacity s3 + 1" by auto
    with assms show ?thesis
      unfolding saved(7) roomInv_def by (auto dest!: set_updateOne_subset)
  qed
  with UpdateSlot show ?thesis by simp
next
  case (DeleteSlot u rid)
  have "roomInv (snd (deleteSlot u rid d))"
    using assms set_deleteOne_subset [of _ "slots d"]
    by (auto simp: deleteSlot_def roomInv_def split: raw_id.splits option.splits if_splits)
  with DeleteSlot show ?thesis by simp
next
  case (Book u rid newId)
  have "roomInv (snd (createBooking u rid newId d))"
  proof (cases u rid newId d rule: createBooking_cases)
    case unchanged
    with assms show ?thesis by simp
  next
    case (created sid s)
    have "of_int (bookedCount (incBooked x)) < capacity (incBooked x) + 1" if "hasRoom sid x" for x
      using that by (simp add: hasRoom_def incBooked_def)
    with assms show ?thesis
      unfolding created(5) roomInv_def by (auto dest!: set_updateOne_subset)
  qed
  with Book show ?thesis by simp
next
  case (Cancel u rid)
  have "roomInv (snd (cancelBookingAs uid rid d))" for uid
  proof (cases uid rid d rule: cancelBookingAs_cases)
    case unchanged
    with assms show ?thesis by simp
  next
    case (flipped bid b)
    have "of_int (bookedCount (decBooked x)) < capacity (decBooked x) + 1"
      if "of_int (bookedCount x) < capacity x + 1" for x
      using that by (simp add: decBooked_def)
    with assms show ?thesis
      unfolding flipped(5) roomInv_def by (auto dest!: set_updateOne_subset)
  qed
  with Cancel show ?thesis by (simp add: cancelBooking_def)
qed

lemma run_roomInv: "roomInv d \<Longrightarrow> roomInv (run rs d)"
  by (induction rs arbitrary: d) (simp_all add: handle_roomInv)

lemma handle_uniquePairs:
  assumes "uniquePairs d"
  shows "uniquePairs (snd (handle r d))"
proof (cases r)
  case (CreateSlot u start end' cap tgs newId)
  with assms show ?thesis
    by (auto simp: createSlot_def uniquePairs_def split: if_splits option.splits)
next
  case (UpdateSlot u rid newS newE newCap newTags)
  have "bookings (snd (updateSlot u rid newS newE newCap newTags d)) = bookings d"
    by (cases u rid newS newE newCap newTags d rule: updateSlot_cases) simp_all
  with UpdateSlot assms show ?thesis by (simp add: uniquePairs_def)
next
  case (DeleteSlot u rid)
  with assms show ?thesis
    by (auto simp: deleteSlot_def uniquePairs_def split: raw_id.splits option.splits if_splits)
next
  case (Book u rid newId)
  have "uniquePairs (snd (createBooking u rid newId d))"
  proof (cases u rid newId d rule: createBooking_cases)
    case unchanged
    with assms show ?thesis by simp
  next
    case (created sid s)
    from created(4) have "\<not> list_ex (\<lambda>x. slotId x = sid \<and> candidateId x = u_id u) (bookings d)"
      by (simp add: insertBooking_def split: if_splits)
    then have "(sid, u_id u) \<notin> (\<lambda>b. (slotId b, candidateId b)) ` set (bookings d)"
      by (auto simp: list_ex_iff)
    with assms show ?thesis
      unfolding created(5) uniquePairs_def by simp
  qed
  with Book show ?thesis by simp
next
  case (Cancel u rid)
  have "uniquePairs (snd (cancelBookingAs uid rid d))" for uid
  proof (cases uid rid d rule: cancelBookingAs_cases)
    case unchanged
    with assms show ?thesis by simp
  next
    case (flipped bid b)
    have "map (\<lambda>b. (slotId b, candidateId b)) (updateOne (\<lambda>x. b_id x = bid) cancelled (bookings d))
        = map (\<lambda>b. (slotId b, candidateId b)) (bookings d)"
      by (rule map_updateOne) (simp add: cancelled_def)
    with assms show ?thesis
      unfolding flipped(5) uniquePairs_def by simp
  qed
  with Cancel show ?thesis by (simp add: cancelBooking_def)
qed

lemma run_uniquePairs: "uniquePairs d \<Longrightarrow> uniquePairs (run rs d)"
  by (induction rs arbitrary: d) (simp_all add: handle_uniquePairs)

lemma reachable_store:
  assumes "slots d = []" and "bookings d = []"
  shows "consistent (run rs d) \<and> uniquePairs (run rs d)
    \<and> (\<forall>s \<in> set (slots (run rs d)).
          bookedCount s = int (activeCount (s_id s) (bookings (run rs d)))
          \<and> 0 \<le> bookedCount s \<and> of_int (bookedCount s) < capacity s + 1
          \<and> (capacity s \<in> \<int> \<longrightarrow> of_int (bookedCount s) \<le> capacity s))"
proof -
  from assms have "consistent d" "uniquePairs d" "roomInv d"
    by (simp_all add: consistent_def counterInv_def refInv_def uniquePairs_def roomInv_def)
  then have c: "consistent (run rs d)" and u: "uniquePairs (run rs d)" and r: "roomInv (run rs d)"
    by (simp_all add: run_consistent run_uniquePairs run_roomInv)
  have "bookedCount s = int (activeCount (s_id s) (bookings (run rs d)))
          \<and> 0 \<le> bookedCount s \<and> of_int (bookedCount s) < capacity s + 1
          \<and> (capacity s \<in> \<int> \<longrightarrow> of_int (bookedCount s) \<le> capacity s)"
    if "s \<in> set (slots (run rs d))" for s
  proof -
    from c that have eq: "bookedCount s = int (activeCount (s_id s) (bookings (run rs d)))"
      by (simp add: consistent_def counterInv_def)
    then have nonneg: "0 \<le> bookedCount s" by simp
    from r that have lt: "of_int (bookedCount s) < capacity s + 1"
      by (simp add: roomInv_def)
    have "of_int (bookedCount s) \<le> capacity s" if "capacity s \<in> \<int>"
    proof -
      from that obtain k where k: "capacity s = of_int k" by (auto elim: Ints_cases)
      with lt have "(of_int (bookedCount s) :: rat) < of_int (k + 1)" by simp
      then have "bookedCount s < k + 1" by (simp only: of_int_less_iff)
      with k show ?thesis by simp
    qed
    with eq nonneg lt show ?thesis by blast
  qed
  with c u show ?thesis by blast
qed

text \<open>
  C2. The bound \<open>bookedCount \<le> capacity\<close> is the last line of the lemma above: it
  needs the capacity to be a whole number, which neither createSlot nor the schema
  asks for. The admin creates slot 3 with capacity 3/2, which passes
  \<open>capacity < 1\<close> and \<open>min: 1\<close>. Alice books it (0 < 3/2), then Bob books it
  (1 < 3/2): all three requests are answered Created, and the slot is left with
  bookedCount 2 above its capacity 3/2.
\<close>

theorem fractional_capacity_overbooked:
  "run [CreateSlot admin 600 660 (3/2) [] 3, Book alice (WellFormed 3) 100,
        Book bob (WellFormed 3) 101] dbEmpty =
     dbEmpty\<lparr>slots := [\<lparr>s_id = 3, startTime = 600, endTime = 660, capacity = 3/2,
                          bookedCount = 2, createdBy = 7, tags = []\<rparr>],
              bookings := [\<lparr>b_id = 100, slotId = 3, candidateId = 10, status = BOOKED\<rparr>,
                           \<lparr>b_id = 101, slotId = 3, candidateId = 11, status = BOOKED\<rparr>]\<rparr>
   \<and> map fst [handle (CreateSlot admin 600 660 (3/2) [] 3) dbEmpty,
        handle (Book alice (WellFormed 3) 100)
          (run [CreateSlot admin 600 660 (3/2) [] 3] dbEmpty),
        handle (Book bob (WellFormed 3) 101)
          (run [CreateSlot admin 600 660 (3/2) [] 3, Book alice (WellFormed 3) 100] dbEmpty)]
      = [Created, Created, Created]
   \<and> \<not> (of_int 2 \<le> (3/2 :: rat))"
  by (simp add: createSlot_def createBooking_def checkOverlap_def insertSlot_def validSlot_def
      alreadyBooked_def findOneAndUpdate_def hasRoom_def incBooked_def insertBooking_def
      dbEmpty_def admin_def alice_def bob_def)

end
